theory Spec2Isabelle
  imports Main
begin

section \<open>The incremental XML stanza parser of \<^verbatim>\<open>xml/parser.go\<close>\<close>

text \<open>
  The development embeds \<^verbatim>\<open>Parser.ParseElement\<close> and its helpers
  (\<^verbatim>\<open>startElement\<close>, \<^verbatim>\<open>setElementText\<close>, \<^verbatim>\<open>endElement\<close>,
  \<^verbatim>\<open>closeElement\<close>, \<^verbatim>\<open>xmlName\<close>) as HOL functions over an explicit parser
  state. Go's \<^verbatim>\<open>int\<close> and \<^verbatim>\<open>int64\<close> are modelled as \<open>int\<close>: the offsets
  are byte counts in \<open>[0, 2^63)\<close>, the difference of two of them cannot overflow, and the
  parsing index moves by one per token. A run-time panic (index out of range) is a
  result of its own, distinct from every returned error.
\<close>

subsection \<open>Tokens of \<^verbatim>\<open>encoding/xml\<close>\<close>

text \<open>\<^verbatim>\<open>xml.Name\<close>, \<^verbatim>\<open>xml.Attr\<close> and the six token types \<^verbatim>\<open>RawToken\<close> returns.\<close>

datatype Name = Name (Space: string) (Local: string)

datatype Attr = Attr (attr_Name: Name) (attr_Value: string)

datatype Token =
    StartElement Name "Attr list"
  | EndElement Name
  | CharData string
  | Comment string
  | ProcInst string string
  | Directive string

subsection \<open>Elements\<close>

text \<open>
  Modelled from the spec: the declarations of \<^verbatim>\<open>Attribute\<close>, \<^verbatim>\<open>Element\<close>,
  \<^verbatim>\<open>attributeSet\<close>, \<^verbatim>\<open>Element.Name\<close> and \<^verbatim>\<open>Element.AppendElement\<close> are
  not part of \<^verbatim>\<open>parser.go\<close>. An attribute is a qualified name with a string value; an
  element has a qualified name, an attribute set, a text (initially empty) and its
  children in document order.
\<close>

datatype Attribute = Attribute (Label: string) (Value: string)

datatype Element =
  Element (name: string) (attrs: "Attribute list") (text': string) (elements: "Element list")

text \<open>
  Modelled from the spec: \<^verbatim>\<open>attributeSet\<close> is an ordered mapping from qualified
  attribute name to value that keeps insertion order; of a repeated qualified name the
  last value wins, at the position of the latest occurrence.
\<close>

fun attributeSet :: "Attribute list \<Rightarrow> Attribute list" where
  "attributeSet [] = []"
| "attributeSet (a # as) =
     (if Label a \<in> set (map Label as) then attributeSet as else a # attributeSet as)"

text \<open>Modelled from the spec: \<^verbatim>\<open>AppendElement\<close> adds a child as the last one.\<close>

definition AppendElement :: "Element \<Rightarrow> Element \<Rightarrow> Element" where
  "AppendElement e c = Element (name e) (attrs e) (text' e) (elements e @ [c])"

text \<open>\<^verbatim>\<open>elem.text = string(t)\<close>\<close>

definition set_text :: "Element \<Rightarrow> string \<Rightarrow> Element" where
  "set_text e s = Element (name e) (attrs e) s (elements e)"

subsection \<open>Errors and results\<close>

text \<open>
  \<^verbatim>\<open>ErrDecoder\<close> stands for whatever error \<^verbatim>\<open>RawToken\<close> returns (\<^verbatim>\<open>io.EOF\<close>, a
  syntax error, a read failure). \<^verbatim>\<open>ParseElement\<close> returns \<^verbatim>\<open>(element, nil)\<close>,
  \<^verbatim>\<open>(nil, nil)\<close> or \<^verbatim>\<open>(nil, err)\<close>, or it panics.
\<close>

datatype error = ErrTooLargeStanza | ErrStreamClosedByPeer | ErrDecoder string

datatype panic = IndexOutOfRange

datatype result = Ok "Element option" | Err error | Panic

subsection \<open>The decoder\<close>

text \<open>
  The tokenizer is outside the repository. A decoder holds the tokens it will still
  deliver, each with the input offset \<^verbatim>\<open>InputOffset\<close> reports once the token has been
  returned, and the error it returns when they are used up (the end of the input, a
  syntax error, a failed read). The field \<open>offset\<close> is the offset at the end of the last
  token delivered; \<^verbatim>\<open>ParseElement\<close> never asks for the offset after a failed read.
  Every read returns: a read that blocks for ever is outside the model.
\<close>

record Decoder =
  pending :: "(Token \<times> int) list"
  offset :: int
  failure :: string

definition RawToken :: "Decoder \<Rightarrow> (error + Token) \<times> Decoder" where
  "RawToken d =
     (case pending d of
        [] \<Rightarrow> (Inl (ErrDecoder (failure d)), d)
      | (t, off) # rest \<Rightarrow> (Inr t, d\<lparr>pending := rest, offset := off\<rparr>))"

definition InputOffset :: "Decoder \<Rightarrow> int" where
  "InputOffset d = offset d"

definition NewDecoder :: "(Token \<times> int) list \<Rightarrow> string \<Rightarrow> Decoder" where
  "NewDecoder ts e = \<lparr>pending = ts, offset = 0, failure = e\<rparr>"

subsection \<open>The parser state\<close>

definition rootElementIndex :: int where
  "rootElementIndex = - 1"

definition streamName :: string where
  "streamName = ''stream''"

text \<open>
  The stack holds pointers in the source. Every element is referenced from one place
  only (a stack slot, the children of one parent, or \<^verbatim>\<open>nextElement\<close>), so the stack
  of values below has the same behaviour; the top of the stack is the last entry, as
  with \<^verbatim>\<open>append\<close>.
\<close>

record Parser =
  dec :: Decoder
  nextElement :: "Element option"
  parsingIndex :: int
  parsingStack :: "Element list"
  inElement :: bool
  lastOffset :: int
  maxStanzaSize :: int

definition NewParser :: "Decoder \<Rightarrow> int \<Rightarrow> Parser" where
  "NewParser reader maxSize =
     \<lparr>dec = reader, nextElement = None, parsingIndex = rootElementIndex,
      parsingStack = [], inElement = False, lastOffset = 0, maxStanzaSize = maxSize\<rparr>"

text \<open>\<^verbatim>\<open>xs[i]\<close>: Go panics when the index is out of range.\<close>

definition index :: "'a list \<Rightarrow> int \<Rightarrow> panic + 'a" where
  "index xs i = (if 0 \<le> i \<and> i < int (length xs) then Inr (xs ! nat i) else Inl IndexOutOfRange)"

definition xmlName :: "string \<Rightarrow> string \<Rightarrow> string" where
  "xmlName space local = (if length space > 0 then space @ '':'' @ local else local)"

text \<open>The body of the loop over \<^verbatim>\<open>t.Attr\<close> in \<^verbatim>\<open>startElement\<close>.\<close>

definition attribute_of :: "Attr \<Rightarrow> Attribute" where
  "attribute_of a = Attribute (xmlName (Space (attr_Name a)) (Local (attr_Name a))) (attr_Value a)"

definition startElement :: "Parser \<Rightarrow> Name \<Rightarrow> Attr list \<Rightarrow> Parser" where
  "startElement p n as =
     (let qname = (if length (Space n) > 0 then Space n @ '':'' @ Local n else Local n);
          as' = map attribute_of as;
          element = Element qname (attributeSet as') [] []
      in p\<lparr>parsingStack := parsingStack p @ [element],
            parsingIndex := parsingIndex p + 1,
            inElement := True\<rparr>)"

definition setElementText :: "Parser \<Rightarrow> string \<Rightarrow> panic + Parser" where
  "setElementText p t =
     (case index (parsingStack p) (parsingIndex p) of
        Inl e \<Rightarrow> Inl e
      | Inr elem \<Rightarrow>
          Inr (p\<lparr>parsingStack := (parsingStack p)[nat (parsingIndex p) := set_text elem t]\<rparr>))"

text \<open>
  \<^verbatim>\<open>closeElement\<close>: the slice \<^verbatim>\<open>p.parsingStack[:p.parsingIndex]\<close> is taken after
  the read at the same index has succeeded, so it cannot panic itself.
\<close>

definition closeElement :: "Parser \<Rightarrow> panic + Parser" where
  "closeElement p =
     (case index (parsingStack p) (parsingIndex p) of
        Inl e \<Rightarrow> Inl e
      | Inr element \<Rightarrow>
          (let stack = take (nat (parsingIndex p)) (parsingStack p);
               i = parsingIndex p - 1
           in if i = rootElementIndex
              then Inr (p\<lparr>parsingStack := stack, parsingIndex := i,
                          nextElement := Some element, inElement := False\<rparr>)
              else (case index stack i of
                      Inl e \<Rightarrow> Inl e
                    | Inr parent \<Rightarrow>
                        Inr (p\<lparr>parsingStack := stack[nat i := AppendElement parent element],
                               parsingIndex := i, inElement := False\<rparr>))))"

text \<open>
  \<^verbatim>\<open>endElement\<close> returns an error value for an end tag that does not match the top
  of the stack; the second component is that returned error (\<open>None\<close> for \<^verbatim>\<open>nil\<close>).
\<close>

definition endElement :: "Parser \<Rightarrow> Name \<Rightarrow> panic + (Parser \<times> string option)" where
  "endElement p n =
     (let qname = xmlName (Space n) (Local n)
      in case index (parsingStack p) (parsingIndex p) of
           Inl e \<Rightarrow> Inl e
         | Inr elem \<Rightarrow>
             if name elem \<noteq> qname
             then Inr (p, Some (''unexpected end element </'' @ qname @ ''>''))
             else (case closeElement p of
                     Inl e \<Rightarrow> Inl e
                   | Inr p' \<Rightarrow> Inr (p', None)))"

subsection \<open>\<^verbatim>\<open>ParseElement\<close>\<close>

text \<open>
  One pass of the \<^verbatim>\<open>for\<close> loop ends in one of three ways: the loop reads the next
  token (\<open>Continue\<close>), it jumps to the label \<^verbatim>\<open>done\<close> (\<open>Done\<close>), or the call returns
  (\<open>Exit\<close>).
\<close>

datatype flow = Continue Parser | Done Parser | Exit result Parser

text \<open>The size check of lines 54 to 57.\<close>

definition tooLarge :: "Parser \<Rightarrow> bool" where
  "tooLarge p =
     (let off = InputOffset (dec p)
      in maxStanzaSize p > 0 \<and> off - lastOffset p > maxStanzaSize p)"

definition isStream :: "Name \<Rightarrow> bool" where
  "isStream n = (Local n = streamName \<and> Space n = streamName)"

text \<open>
  The type switch of lines 58 to 83. The value \<^verbatim>\<open>endElement\<close> returns is dropped
  by the caller, as in the source; comments and directives match no case.
\<close>

definition classify :: "Parser \<Rightarrow> Token \<Rightarrow> flow" where
  "classify p t =
     (case t of
        ProcInst target inst \<Rightarrow> Exit (Ok None) p
      | StartElement n as \<Rightarrow>
          (let p1 = startElement p n as
           in if isStream n
              then (case closeElement p1 of
                      Inl e \<Rightarrow> Exit Panic p1
                    | Inr p2 \<Rightarrow> Done p2)
              else Continue p1)
      | CharData s \<Rightarrow>
          if \<not> inElement p then Exit (Ok None) p
          else (case setElementText p s of
                  Inl e \<Rightarrow> Exit Panic p
                | Inr p1 \<Rightarrow> Continue p1)
      | EndElement n \<Rightarrow>
          if isStream n then Exit (Err ErrStreamClosedByPeer) p
          else (case endElement p n of
                  Inl e \<Rightarrow> Exit Panic p
                | Inr (p1, err) \<Rightarrow>
                    if parsingIndex p1 = rootElementIndex then Done p1 else Continue p1)
      | Comment c \<Rightarrow> Continue p
      | Directive d \<Rightarrow> Continue p)"

definition body :: "Parser \<Rightarrow> Token \<Rightarrow> flow" where
  "body p t = (if tooLarge p then Exit (Err ErrTooLargeStanza) p else classify p t)"

text \<open>The label \<^verbatim>\<open>done\<close>, lines 89 to 93.\<close>

definition finish :: "Parser \<Rightarrow> result \<times> Parser" where
  "finish p =
     (let p1 = p\<lparr>lastOffset := InputOffset (dec p)\<rparr>;
          ret = nextElement p1
      in (Ok ret, p1\<lparr>nextElement := None\<rparr>))"

lemma classify_dec: "classify p t = Continue p' \<Longrightarrow> dec p' = dec p"
  by (auto simp: classify_def startElement_def setElementText_def endElement_def
      closeElement_def Let_def split: Token.splits sum.splits if_splits prod.splits)

lemma body_dec: "body p t = Continue p' \<Longrightarrow> dec p' = dec p"
  by (auto simp: body_def classify_dec split: if_splits)

lemma RawToken_shorter:
  "RawToken d = (Inr t, d') \<Longrightarrow> length (pending d') < length (pending d)"
  by (auto simp: RawToken_def split: list.splits)

text \<open>
  The loop, entered with the token just read. The decoder delivers finitely many
  tokens before it fails, which bounds the number of passes.
\<close>

function loop :: "Parser \<Rightarrow> Token \<Rightarrow> result \<times> Parser" where
  "loop p t =
     (case body p t of
        Exit r p' \<Rightarrow> (r, p')
      | Done p' \<Rightarrow> finish p'
      | Continue p' \<Rightarrow>
          (case RawToken (dec p') of
             (Inl e, d) \<Rightarrow> (Err e, p'\<lparr>dec := d\<rparr>)
           | (Inr t', d) \<Rightarrow> loop (p'\<lparr>dec := d\<rparr>) t'))"
  by pat_completeness auto
termination
  apply (relation "measure (\<lambda>(p, t). length (pending (dec p)))")
   apply simp
  apply (auto dest!: body_dec RawToken_shorter [OF sym])
  done

definition ParseElement :: "Parser \<Rightarrow> result \<times> Parser" where
  "ParseElement p =
     (case RawToken (dec p) of
        (Inl err, d) \<Rightarrow> (Err err, p\<lparr>dec := d\<rparr>)
      | (Inr t, d) \<Rightarrow> loop (p\<lparr>dec := d\<rparr>) t)"

subsection \<open>Parser states and documents\<close>

text \<open>
  What holds of the parser between two calls of \<^verbatim>\<open>ParseElement\<close>: the index is the
  position of the top of the stack, the flag \<^verbatim>\<open>inElement\<close> is off when the stack is
  empty, and no result is pending. A new parser is in such a state, and every call that
  does not panic leaves the parser in one.
\<close>

definition consistent :: "Parser \<Rightarrow> bool" where
  "consistent p =
     (parsingIndex p = int (length (parsingStack p)) - 1 \<and>
      (parsingStack p = [] \<longrightarrow> \<not> inElement p) \<and>
      nextElement p = None)"

text \<open>The element \<^verbatim>\<open>startElement\<close> pushes for a start tag.\<close>

definition newElement :: "Name \<Rightarrow> Attr list \<Rightarrow> Element" where
  "newElement n as =
     Element (xmlName (Space n) (Local n)) (attributeSet (map attribute_of as)) [] []"

definition streamElement :: "Attr list \<Rightarrow> Element" where
  "streamElement as = Element ''stream:stream'' (attributeSet (map attribute_of as)) [] []"

text \<open>
  An element of the input as the decoder delivers it: a start tag with its attributes, one
  token of character data directly after the start tag (if any), the child elements, and
  the matching end tag. Every token carries the input offset at its end. An input of this
  shape is what the element's own structure (a name, attributes, one text, children)
  serialises to.
\<close>

datatype XNode = XNode Name "Attr list" int "(string \<times> int) option" "XNode list" int

fun tokens :: "XNode \<Rightarrow> (Token \<times> int) list" where
  "tokens (XNode n as o1 tx cs o2) =
     (StartElement n as, o1) #
     (case tx of None \<Rightarrow> [] | Some (s, off) \<Rightarrow> [(CharData s, off)]) @
     concat (map tokens cs) @ [(EndElement n, o2)]"

text \<open>
  The element the document describes: the qualified name, the attributes in source order,
  the text, the children in document order.
\<close>

fun element_of :: "XNode \<Rightarrow> Element" where
  "element_of (XNode n as o1 tx cs o2) =
     Element (xmlName (Space n) (Local n)) (map attribute_of as)
       (case tx of None \<Rightarrow> [] | Some (s, off) \<Rightarrow> s) (map element_of cs)"

text \<open>
  No tag has the reserved name, and the attribute names of one tag are distinct (a
  well-formedness constraint of XML).
\<close>

fun wellFormed :: "XNode \<Rightarrow> bool" where
  "wellFormed (XNode n as o1 tx cs o2) =
     (\<not> isStream n \<and> distinct (map (\<lambda>a. Label (attribute_of a)) as) \<and>
      (\<forall>c \<in> set cs. wellFormed c))"

fun endOffset :: "XNode \<Rightarrow> int" where
  "endOffset (XNode n as o1 tx cs o2) = o2"

text \<open>Every token of the list passes the size check against the last committed offset.\<close>

definition fits :: "Parser \<Rightarrow> (Token \<times> int) list \<Rightarrow> bool" where
  "fits p ts =
     (\<forall>(t, off) \<in> set ts. \<not> (maxStanzaSize p > 0 \<and> off - lastOffset p > maxStanzaSize p))"

text \<open>The outcome of a pass, with another size limit in the state it carries.\<close>

fun with_limit :: "int \<Rightarrow> flow \<Rightarrow> flow" where
  "with_limit m (Continue q) = Continue (q\<lparr>maxStanzaSize := m\<rparr>)"
| "with_limit m (Done q) = Done (q\<lparr>maxStanzaSize := m\<rparr>)"
| "with_limit m (Exit r q) = Exit r (q\<lparr>maxStanzaSize := m\<rparr>)"

section \<open>Basic facts\<close>

declare loop.simps [simp del]

lemma loop_Exit: "body p t = Exit r p' \<Longrightarrow> loop p t = (r, p')"
  by (simp add: loop.simps)

lemma loop_Done: "body p t = Done p' \<Longrightarrow> loop p t = finish p'"
  by (simp add: loop.simps)

lemma loop_Continue: "body p t = Continue p' \<Longrightarrow> loop p t = ParseElement p'"
  by (simp add: loop.simps ParseElement_def)

lemma ParseElement_Cons:
  "pending (dec p) = (t, off) # rest \<Longrightarrow>
   ParseElement p = loop (p\<lparr>dec := (dec p)\<lparr>pending := rest, offset := off\<rparr>\<rparr>) t"
  by (simp add: ParseElement_def RawToken_def)

lemma ParseElement_Nil:
  "pending (dec p) = [] \<Longrightarrow> ParseElement p = (Err (ErrDecoder (failure (dec p))), p)"
  by (simp add: ParseElement_def RawToken_def)

lemma startElement_eq:
  "startElement p n as =
     p\<lparr>parsingStack := parsingStack p @ [newElement n as],
       parsingIndex := parsingIndex p + 1, inElement := True\<rparr>"
  by (simp add: startElement_def newElement_def xmlName_def Let_def)

lemma newElement_stream: "isStream n \<Longrightarrow> newElement n as = streamElement as"
  by (simp add: newElement_def streamElement_def isStream_def streamName_def xmlName_def)

lemma closeElement_root:
  assumes "parsingStack p = [e]" and "parsingIndex p = 0"
  shows "closeElement p =
           Inr (p\<lparr>parsingStack := [], parsingIndex := rootElementIndex,
                  nextElement := Some e, inElement := False\<rparr>)"
  using assms by (simp add: closeElement_def index_def rootElementIndex_def)

lemma closeElement_nested:
  assumes "parsingStack p = stk @ [e', e]" and "parsingIndex p = int (length stk) + 1"
  shows "closeElement p =
           Inr (p\<lparr>parsingStack := stk @ [AppendElement e' e],
                  parsingIndex := int (length stk), inElement := False\<rparr>)"
proof -
  have n: "nat (parsingIndex p) = Suc (length stk)"
    using assms(2) by simp
  have "index (parsingStack p) (parsingIndex p) = Inr e"
    using assms n by (simp add: index_def nth_append)
  moreover have "take (nat (parsingIndex p)) (parsingStack p) = stk @ [e']"
    using assms(1) n by simp
  moreover have "index (stk @ [e']) (parsingIndex p - 1) = Inr e'"
    using assms(2) by (simp add: index_def)
  moreover have "parsingIndex p - 1 \<noteq> rootElementIndex"
    using assms(2) by (simp add: rootElementIndex_def)
  moreover have "nat (parsingIndex p - 1) = length stk" "parsingIndex p - 1 = int (length stk)"
    using assms(2) by simp_all
  ultimately show ?thesis
    by (simp add: closeElement_def Let_def)
qed

lemma closeElement_frame:
  "closeElement p = Inr p' \<Longrightarrow>
   dec p' = dec p \<and> lastOffset p' = lastOffset p \<and> maxStanzaSize p' = maxStanzaSize p"
  by (auto simp: closeElement_def Let_def split: sum.splits if_splits)

lemma classify_frame:
  "classify p t = Continue p' \<or> classify p t = Done p' \<or> classify p t = Exit r p' \<Longrightarrow>
   dec p' = dec p \<and> lastOffset p' = lastOffset p \<and> maxStanzaSize p' = maxStanzaSize p"
  by (auto simp: classify_def startElement_eq setElementText_def endElement_def Let_def
      dest!: closeElement_frame split: Token.splits sum.splits if_splits prod.splits)

lemma classify_not_tooLarge: "classify p t \<noteq> Exit (Err ErrTooLargeStanza) p'"
  by (auto simp: classify_def Let_def split: Token.splits sum.splits if_splits prod.splits)

lemma body_frame:
  "body p t = Continue p' \<or> body p t = Done p' \<or> body p t = Exit r p' \<Longrightarrow>
   dec p' = dec p \<and> lastOffset p' = lastOffset p \<and> maxStanzaSize p' = maxStanzaSize p"
  using classify_frame [of p t p' r] by (auto simp: body_def split: if_splits)

lemma body_tooLarge: "tooLarge p \<Longrightarrow> body p t = Exit (Err ErrTooLargeStanza) p"
  by (simp add: body_def)

lemma body_Exit_tooLarge: "body p t = Exit (Err ErrTooLargeStanza) p' \<Longrightarrow> tooLarge p"
  by (auto simp: body_def classify_not_tooLarge split: if_splits)

lemma body_flow_not_tooLarge:
  "body p t = Continue p' \<or> body p t = Done p' \<Longrightarrow> \<not> tooLarge p"
  by (auto simp: body_def split: if_splits)

text \<open>A proof rule for the loop: one case for each way a pass can end.\<close>

lemma loop_rule [case_names Exit Done Fail Next]:
  assumes "\<And>p t r p'. body p t = Exit r p' \<Longrightarrow> Q p (r, p')"
    and "\<And>p t p'. body p t = Done p' \<Longrightarrow> Q p (finish p')"
    and "\<And>p t p'. body p t = Continue p' \<Longrightarrow> pending (dec p') = [] \<Longrightarrow>
           Q p (Err (ErrDecoder (failure (dec p'))), p')"
    and "\<And>p t p' t' off rest res. body p t = Continue p' \<Longrightarrow>
           pending (dec p') = (t', off) # rest \<Longrightarrow>
           Q (p'\<lparr>dec := (dec p')\<lparr>pending := rest, offset := off\<rparr>\<rparr>) res \<Longrightarrow> Q p res"
  shows "Q p (loop p t)"
proof (induction p t rule: loop.induct)
  case (1 p t)
  show ?case
  proof (cases "body p t")
    case (Continue p')
    show ?thesis
    proof (cases "pending (dec p')")
      case Nil
      with Continue assms(3) [OF Continue Nil] show ?thesis
        by (simp add: loop.simps RawToken_def)
    next
      case (Cons a rest)
      obtain t' off where a: "a = (t', off)" by (cases a)
      have "Q (p'\<lparr>dec := (dec p')\<lparr>pending := rest, offset := off\<rparr>\<rparr>)
              (loop (p'\<lparr>dec := (dec p')\<lparr>pending := rest, offset := off\<rparr>\<rparr>) t')"
        using Continue Cons a by (intro "1.IH") (simp_all add: RawToken_def)
      from assms(4) [OF Continue _ this] Continue Cons a show ?thesis
        by (simp add: loop.simps RawToken_def)
    qed
  next
    case (Done p')
    with assms(2) [OF Done] show ?thesis by (simp add: loop.simps)
  next
    case (Exit r p')
    with assms(1) [OF Exit] show ?thesis by (simp add: loop.simps)
  qed
qed


lemma loop_tooLarge_iff:
  assumes "0 < maxStanzaSize p"
  shows "(fst (loop p t) = Err ErrTooLargeStanza) =
   (InputOffset (dec (snd (loop p t))) - lastOffset p > maxStanzaSize p)"
proof -
  define Q where "Q = (\<lambda>(p :: Parser) (res :: result \<times> Parser). 0 < maxStanzaSize p \<longrightarrow>
     (fst res = Err ErrTooLargeStanza) =
     (InputOffset (dec (snd res)) - lastOffset p > maxStanzaSize p))"
  have "Q p (loop p t)"
  proof (induction rule: loop_rule)
    case (Exit p t r p')
    show ?case
    proof (cases "tooLarge p")
      case True
      with Exit have "r = Err ErrTooLargeStanza" "p' = p" by (simp_all add: body_def)
      with True show ?thesis by (simp add: Q_def tooLarge_def Let_def)
    next
      case False
      with Exit have "r \<noteq> Err ErrTooLargeStanza" using body_Exit_tooLarge by blast
      with Exit False show ?thesis using body_frame [of p t p' r]
        by (simp add: Q_def tooLarge_def Let_def)
    qed
  next
    case (Done p t p')
    then have "\<not> tooLarge p" using body_flow_not_tooLarge by blast
    with Done show ?case using body_frame [of p t p']
      by (simp add: Q_def finish_def Let_def tooLarge_def)
  next
    case (Fail p t p')
    then have "\<not> tooLarge p" using body_flow_not_tooLarge by blast
    with Fail show ?case using body_frame [of p t p']
      by (simp add: Q_def tooLarge_def Let_def)
  next
    case (Next p t p' t' off rest res)
    then show ?case using body_frame [of p t p'] by (simp add: Q_def)
  qed
  with assms show ?thesis by (simp add: Q_def)
qed

lemma loop_never_tooLarge:
  assumes "maxStanzaSize p \<le> 0"
  shows "fst (loop p t) \<noteq> Err ErrTooLargeStanza"
proof -
  define Q where "Q = (\<lambda>(p :: Parser) (res :: result \<times> Parser). maxStanzaSize p \<le> 0 \<longrightarrow>
     fst res \<noteq> Err ErrTooLargeStanza)"
  have "Q p (loop p t)"
  proof (induction rule: loop_rule)
    case (Exit p t r p')
    then show ?case using body_Exit_tooLarge [of p t p'] by (auto simp: Q_def tooLarge_def)
  next
    case (Done p t p')
    then show ?case by (simp add: Q_def finish_def Let_def)
  next
    case (Fail p t p')
    then show ?case by (simp add: Q_def)
  next
    case (Next p t p' t' off rest res)
    then show ?case using body_frame [of p t p'] by (simp add: Q_def)
  qed
  with assms show ?thesis by (simp add: Q_def)
qed

lemma loop_maxStanzaSize: "maxStanzaSize (snd (loop p t)) = maxStanzaSize p"
proof -
  define Q where "Q = (\<lambda>(p :: Parser) (res :: result \<times> Parser). maxStanzaSize (snd res) = maxStanzaSize p)"
  have "Q p (loop p t)"
  proof (induction rule: loop_rule)
    case (Exit p t r p')
    then show ?case using body_frame [of p t p' r] by (simp add: Q_def)
  next
    case (Done p t p')
    then show ?case using body_frame [of p t p'] by (simp add: Q_def finish_def Let_def)
  next
    case (Fail p t p')
    then show ?case using body_frame [of p t p'] by (simp add: Q_def)
  next
    case (Next p t p' t' off rest res)
    then show ?case using body_frame [of p t p'] by (simp add: Q_def)
  qed
  then show ?thesis by (simp add: Q_def)
qed

lemma attributeSet_distinct: "distinct (map Label as) \<Longrightarrow> attributeSet as = as"
  by (induction as) auto

lemma fits_Cons: "fits p ((t, off) # ts) =
  (\<not> (maxStanzaSize p > 0 \<and> off - lastOffset p > maxStanzaSize p) \<and> fits p ts)"
  by (simp add: fits_def)

lemma fits_append: "fits p (ts @ us) = (fits p ts \<and> fits p us)"
  by (auto simp: fits_def)

lemma fits_Nil: "fits p []"
  by (simp add: fits_def)

lemma step_start:
  assumes "\<not> tooLarge p" and "\<not> isStream n"
  shows "loop p (StartElement n as) =
           ParseElement (p\<lparr>parsingStack := parsingStack p @ [newElement n as],
                           parsingIndex := parsingIndex p + 1, inElement := True\<rparr>)"
  using assms by (intro loop_Continue) (simp add: body_def classify_def startElement_eq)

lemma step_text:
  assumes "\<not> tooLarge p" and "inElement p"
    and "parsingStack p = stk @ [e]" and "parsingIndex p = int (length stk)"
  shows "loop p (CharData s) = ParseElement (p\<lparr>parsingStack := stk @ [set_text e s]\<rparr>)"
  using assms
  by (intro loop_Continue) (simp add: body_def classify_def setElementText_def index_def)

lemma step_end_root:
  assumes "\<not> tooLarge p" and "\<not> isStream n"
    and "parsingStack p = [e]" and "parsingIndex p = 0"
    and "name e = xmlName (Space n) (Local n)"
  shows "loop p (EndElement n) =
           (Ok (Some e),
            p\<lparr>parsingStack := [], parsingIndex := rootElementIndex, nextElement := None,
              inElement := False, lastOffset := InputOffset (dec p)\<rparr>)"
proof -
  have "body p (EndElement n) =
          Done (p\<lparr>parsingStack := [], parsingIndex := rootElementIndex,
                  nextElement := Some e, inElement := False\<rparr>)"
    using assms closeElement_root [OF assms(3,4)]
    by (simp add: body_def classify_def endElement_def index_def Let_def)
  then show ?thesis
    by (simp add: loop_Done finish_def Let_def)
qed

lemma step_end_nested:
  assumes "\<not> tooLarge p" and "\<not> isStream n"
    and "parsingStack p = stk @ [e', e]" and "parsingIndex p = int (length stk) + 1"
    and "name e = xmlName (Space n) (Local n)"
  shows "loop p (EndElement n) =
           ParseElement (p\<lparr>parsingStack := stk @ [AppendElement e' e],
                           parsingIndex := int (length stk), inElement := False\<rparr>)"
proof -
  have "nat (parsingIndex p) = Suc (length stk)"
    using assms(4) by simp
  then have "index (parsingStack p) (parsingIndex p) = Inr e"
    using assms(3,4) by (simp add: index_def nth_append)
  then have "body p (EndElement n) =
          Continue (p\<lparr>parsingStack := stk @ [AppendElement e' e],
                  parsingIndex := int (length stk), inElement := False\<rparr>)"
    using assms closeElement_nested [OF assms(3,4)]
    by (simp add: body_def classify_def endElement_def Let_def rootElementIndex_def)
  then show ?thesis
    by (rule loop_Continue)
qed

text \<open>
  Reading the tokens of a document. Inside an open element the call goes on with the
  document appended as the last child; at the top level the call returns its element.
\<close>

lemma parse_children:
  assumes nested: "\<And>c p stk e rest. c \<in> set cs \<Longrightarrow>
      pending (dec p) = tokens c @ rest \<Longrightarrow> fits p (tokens c) \<Longrightarrow>
      parsingStack p = stk @ [e] \<Longrightarrow> parsingIndex p = int (length stk) \<Longrightarrow>
      ParseElement p =
        ParseElement (p\<lparr>dec := (dec p)\<lparr>pending := rest, offset := endOffset c\<rparr>,
                        parsingStack := stk @ [AppendElement e (element_of c)],
                        inElement := False\<rparr>)"
    and "pending (dec p) = concat (map tokens cs) @ rest"
    and "fits p (concat (map tokens cs))"
    and "parsingStack p = stk @ [e]" and "parsingIndex p = int (length stk)"
    and "cs \<noteq> []"
  shows "ParseElement p =
           ParseElement (p\<lparr>dec := (dec p)\<lparr>pending := rest, offset := endOffset (last cs)\<rparr>,
                           parsingStack :=
                             stk @ [Element (name e) (attrs e) (text' e)
                                      (elements e @ map element_of cs)],
                           inElement := False\<rparr>)"
  using assms
proof (induction cs arbitrary: p e)
  case Nil
  then show ?case by simp
next
  case (Cons c cs)
  let ?p1 = "p\<lparr>dec := (dec p)\<lparr>pending := concat (map tokens cs) @ rest, offset := endOffset c\<rparr>,
                parsingStack := stk @ [AppendElement e (element_of c)], inElement := False\<rparr>"
  have first: "ParseElement p = ParseElement ?p1"
    using Cons.prems(2,3,4,5) by (intro Cons.prems(1)) (simp_all add: fits_append)
  show ?case
  proof (cases "cs = []")
    case True
    with first show ?thesis by (simp add: AppendElement_def)
  next
    case False
    have "ParseElement ?p1 =
           ParseElement (?p1\<lparr>dec := (dec ?p1)\<lparr>pending := rest, offset := endOffset (last cs)\<rparr>,
               parsingStack :=
                 stk @ [Element (name (AppendElement e (element_of c)))
                          (attrs (AppendElement e (element_of c)))
                          (text' (AppendElement e (element_of c)))
                          (elements (AppendElement e (element_of c)) @ map element_of cs)],
               inElement := False\<rparr>)"
    proof (rule Cons.IH)
      show "fits ?p1 (concat (map tokens cs))"
        using Cons.prems(3) by (simp add: fits_append fits_def)
    qed (use Cons.prems(1,5) False in simp_all)
    with first False show ?thesis by (simp add: AppendElement_def)
  qed
qed

lemma parse_open:
  assumes nested: "\<And>c p stk e rest. c \<in> set cs \<Longrightarrow>
      pending (dec p) = tokens c @ rest \<Longrightarrow> fits p (tokens c) \<Longrightarrow>
      parsingStack p = stk @ [e] \<Longrightarrow> parsingIndex p = int (length stk) \<Longrightarrow>
      ParseElement p =
        ParseElement (p\<lparr>dec := (dec p)\<lparr>pending := rest, offset := endOffset c\<rparr>,
                        parsingStack := stk @ [AppendElement e (element_of c)],
                        inElement := False\<rparr>)"
    and wf: "\<not> isStream n" "distinct (map (\<lambda>a. Label (attribute_of a)) as)"
    and inp: "pending (dec p) = tokens (XNode n as o1 tx cs o2) @ rest"
    and fit: "fits p (tokens (XNode n as o1 tx cs o2))"
    and idx: "parsingIndex p = int (length (parsingStack p)) - 1"
  shows "ParseElement p =
           loop (p\<lparr>dec := (dec p)\<lparr>pending := rest, offset := o2\<rparr>,
                   parsingStack := parsingStack p @ [element_of (XNode n as o1 tx cs o2)],
                   parsingIndex := parsingIndex p + 1,
                   inElement := (cs = [])\<rparr>) (EndElement n)"
proof -
  let ?stk = "parsingStack p"
  let ?ctoks = "case tx of None \<Rightarrow> [] | Some (s, off) \<Rightarrow> [(CharData s, off)]"
  let ?s = "case tx of None \<Rightarrow> [] | Some (s, off) \<Rightarrow> s"
  let ?e1 = "Element (xmlName (Space n) (Local n)) (map attribute_of as) [] []"
  let ?e2 = "Element (xmlName (Space n) (Local n)) (map attribute_of as) ?s []"
  let ?after1 = "?ctoks @ concat (map tokens cs) @ (EndElement n, o2) # rest"
  let ?after2 = "concat (map tokens cs) @ (EndElement n, o2) # rest"
  let ?off2 = "case tx of None \<Rightarrow> o1 | Some (s, off) \<Rightarrow> off"
  let ?p2 = "p\<lparr>dec := (dec p)\<lparr>pending := ?after1, offset := o1\<rparr>,
               parsingStack := ?stk @ [?e1], parsingIndex := parsingIndex p + 1,
               inElement := True\<rparr>"
  let ?p3 = "p\<lparr>dec := (dec p)\<lparr>pending := ?after2, offset := ?off2\<rparr>,
               parsingStack := ?stk @ [?e2], parsingIndex := parsingIndex p + 1,
               inElement := True\<rparr>"
  have new: "newElement n as = ?e1"
    using wf(2) by (simp add: newElement_def attributeSet_distinct comp_def)
  have fit1: "\<not> (maxStanzaSize p > 0 \<and> o1 - lastOffset p > maxStanzaSize p)"
    and fit2: "fits p ?ctoks" and fit3: "fits p (concat (map tokens cs))"
    and fit4: "\<not> (maxStanzaSize p > 0 \<and> o2 - lastOffset p > maxStanzaSize p)"
    using fit by (simp_all add: fits_Cons fits_append)
  have s1: "ParseElement p = ParseElement ?p2"
    using inp wf(1) fit1 new
    by (simp add: ParseElement_Cons step_start tooLarge_def InputOffset_def)
  have s2: "ParseElement ?p2 = ParseElement ?p3"
  proof (cases tx)
    case None
    then show ?thesis by simp
  next
    case (Some a)
    obtain s off where a: "a = (s, off)" by (cases a)
    let ?r = "?p2\<lparr>dec := (dec ?p2)\<lparr>pending := ?after2, offset := off\<rparr>\<rparr>"
    have "ParseElement ?p2 = loop ?r (CharData s)"
      using Some a by (intro ParseElement_Cons) simp
    also have "\<dots> = ParseElement (?r\<lparr>parsingStack := ?stk @ [set_text ?e1 s]\<rparr>)"
      using Some a fit2 idx
      by (intro step_text) (simp_all add: tooLarge_def InputOffset_def fits_Cons)
    also have "?r\<lparr>parsingStack := ?stk @ [set_text ?e1 s]\<rparr> = ?p3"
      using Some a by (simp add: set_text_def)
    finally show ?thesis .
  qed
  let ?goal = "p\<lparr>dec := (dec p)\<lparr>pending := rest, offset := o2\<rparr>,
                 parsingStack := parsingStack p @ [element_of (XNode n as o1 tx cs o2)],
                 parsingIndex := parsingIndex p + 1, inElement := (cs = [])\<rparr>"
  show ?thesis
  proof (cases "cs = []")
    case True
    let ?r = "?p3\<lparr>dec := (dec ?p3)\<lparr>pending := rest, offset := o2\<rparr>\<rparr>"
    note s1
    also note s2
    also have "ParseElement ?p3 = loop ?r (EndElement n)"
      using True by (intro ParseElement_Cons) simp
    also have "?r = ?goal"
      using True by simp
    finally show ?thesis .
  next
    case False
    let ?p4 = "?p3\<lparr>dec := (dec ?p3)\<lparr>pending := (EndElement n, o2) # rest,
                                      offset := endOffset (last cs)\<rparr>,
                   parsingStack :=
                     ?stk @ [Element (name ?e2) (attrs ?e2) (text' ?e2)
                               (elements ?e2 @ map element_of cs)],
                   inElement := False\<rparr>"
    let ?r = "?p4\<lparr>dec := (dec ?p4)\<lparr>pending := rest, offset := o2\<rparr>\<rparr>"
    note s1
    also note s2
    also have "ParseElement ?p3 = ParseElement ?p4"
    proof (rule parse_children [OF nested])
      show "fits ?p3 (concat (map tokens cs))"
        using fit3 by (simp add: fits_def)
    qed (use False idx in simp_all)
    also have "ParseElement ?p4 = loop ?r (EndElement n)"
      by (intro ParseElement_Cons) simp
    also have "?r = ?goal"
      using False by simp
    finally show ?thesis .
  qed
qed

lemma parse_nested:
  assumes "wellFormed x" and "pending (dec p) = tokens x @ rest" and "fits p (tokens x)"
    and "parsingStack p = stk @ [e]" and "parsingIndex p = int (length stk)"
  shows "ParseElement p =
           ParseElement (p\<lparr>dec := (dec p)\<lparr>pending := rest, offset := endOffset x\<rparr>,
                           parsingStack := stk @ [AppendElement e (element_of x)],
                           inElement := False\<rparr>)"
  using assms
proof (induction x arbitrary: p stk e rest)
  case (XNode n as o1 tx cs o2)
  let ?x = "XNode n as o1 tx cs o2"
  have nested: "\<And>c p stk e rest. c \<in> set cs \<Longrightarrow>
      pending (dec p) = tokens c @ rest \<Longrightarrow> fits p (tokens c) \<Longrightarrow>
      parsingStack p = stk @ [e] \<Longrightarrow> parsingIndex p = int (length stk) \<Longrightarrow>
      ParseElement p =
        ParseElement (p\<lparr>dec := (dec p)\<lparr>pending := rest, offset := endOffset c\<rparr>,
                        parsingStack := stk @ [AppendElement e (element_of c)],
                        inElement := False\<rparr>)"
    using XNode.IH XNode.prems(1) by simp
  let ?q = "p\<lparr>dec := (dec p)\<lparr>pending := rest, offset := o2\<rparr>,
              parsingStack := parsingStack p @ [element_of ?x],
              parsingIndex := parsingIndex p + 1, inElement := (cs = [])\<rparr>"
  have "ParseElement p = loop ?q (EndElement n)"
    using XNode.prems(1,2,3,4,5) by (intro parse_open [OF nested]) simp_all
  also have "\<dots> = ParseElement (?q\<lparr>parsingStack := stk @ [AppendElement e (element_of ?x)],
                           parsingIndex := int (length stk), inElement := False\<rparr>)"
    using XNode.prems
    by (intro step_end_nested)
      (simp_all add: tooLarge_def InputOffset_def fits_Cons fits_append fits_Nil)
  also have "?q\<lparr>parsingStack := stk @ [AppendElement e (element_of ?x)],
                           parsingIndex := int (length stk), inElement := False\<rparr> =
      p\<lparr>dec := (dec p)\<lparr>pending := rest, offset := endOffset ?x\<rparr>,
        parsingStack := stk @ [AppendElement e (element_of ?x)], inElement := False\<rparr>"
    using XNode.prems(5) [symmetric] by simp
  finally show ?case .
qed

lemma parse_root:
  assumes "wellFormed x" and "pending (dec p) = tokens x @ rest" and "fits p (tokens x)"
    and "parsingStack p = []" and "parsingIndex p = rootElementIndex"
  shows "ParseElement p =
           (Ok (Some (element_of x)),
            p\<lparr>dec := (dec p)\<lparr>pending := rest, offset := endOffset x\<rparr>,
              parsingStack := [], parsingIndex := rootElementIndex, nextElement := None,
              inElement := False, lastOffset := endOffset x\<rparr>)"
proof (cases x)
  case (XNode n as o1 tx cs o2)
  let ?q = "p\<lparr>dec := (dec p)\<lparr>pending := rest, offset := o2\<rparr>,
              parsingStack := parsingStack p @ [element_of x],
              parsingIndex := parsingIndex p + 1, inElement := (cs = [])\<rparr>"
  have "ParseElement p = loop ?q (EndElement n)"
    unfolding XNode using assms unfolding XNode
    by (intro parse_open parse_nested) (simp_all add: rootElementIndex_def)
  also have "\<dots> = (Ok (Some (element_of x)),
            ?q\<lparr>parsingStack := [], parsingIndex := rootElementIndex, nextElement := None,
              inElement := False, lastOffset := InputOffset (dec ?q)\<rparr>)"
    using assms XNode
    by (intro step_end_root)
      (simp_all add: tooLarge_def InputOffset_def fits_Cons fits_append fits_Nil
         rootElementIndex_def)
  also have "?q\<lparr>parsingStack := [], parsingIndex := rootElementIndex, nextElement := None,
              inElement := False, lastOffset := InputOffset (dec ?q)\<rparr> =
      p\<lparr>dec := (dec p)\<lparr>pending := rest, offset := endOffset x\<rparr>,
        parsingStack := [], parsingIndex := rootElementIndex, nextElement := None,
        inElement := False, lastOffset := endOffset x\<rparr>"
    using XNode by (simp add: InputOffset_def)
  finally show ?thesis .
qed

text \<open>Consistency is kept by every call that does not panic.\<close>

lemma consistent_NewParser: "consistent (NewParser d m)"
  by (simp add: consistent_def NewParser_def rootElementIndex_def)

lemma closeElement_ok:
  assumes "parsingStack p \<noteq> []" and "parsingIndex p = int (length (parsingStack p)) - 1"
  shows "\<exists>p2. closeElement p = Inr p2"
proof -
  from assms(1) obtain xs e where xs: "parsingStack p = xs @ [e]"
    by (cases "parsingStack p" rule: rev_cases) auto
  show ?thesis
  proof (cases xs rule: rev_cases)
    case Nil
    with xs assms(2) show ?thesis using closeElement_root [of p e] by simp
  next
    case (snoc ys e')
    with xs assms(2) show ?thesis using closeElement_nested [of p ys e' e] by simp
  qed
qed

lemma closeElement_consistent:
  assumes "parsingIndex p = int (length (parsingStack p)) - 1" and "closeElement p = Inr p'"
  shows "parsingIndex p' = int (length (parsingStack p')) - 1 \<and> \<not> inElement p' \<and>
         (parsingIndex p' \<noteq> rootElementIndex \<longrightarrow> nextElement p' = nextElement p)"
  using assms
  by (auto simp: closeElement_def index_def Let_def rootElementIndex_def
      split: sum.splits if_splits)

lemma classify_consistent:
  assumes "consistent p"
  shows "(classify p t = Continue p' \<longrightarrow> consistent p') \<and>
         (classify p t = Done p' \<longrightarrow> consistent (snd (finish p'))) \<and>
         (classify p t = Exit r p' \<longrightarrow> r \<noteq> Panic \<longrightarrow> consistent p')"
proof (cases t)
  case (StartElement n as)
  let ?p1 = "startElement p n as"
  have p1: "parsingIndex ?p1 = int (length (parsingStack ?p1)) - 1" "nextElement ?p1 = None"
    "parsingStack ?p1 \<noteq> []"
    using assms by (simp_all add: startElement_eq consistent_def)
  show ?thesis
  proof (cases "closeElement ?p1")
    case (Inl e)
    with StartElement p1 show ?thesis
      by (auto simp: classify_def Let_def consistent_def)
  next
    case (Inr p2)
    from closeElement_consistent [OF p1(1) Inr] p1 StartElement Inr show ?thesis
      by (auto simp: classify_def Let_def consistent_def finish_def)
  qed
next
  case (EndElement n)
  show ?thesis
  proof (cases "closeElement p")
    case (Inl e)
    with EndElement assms show ?thesis
      by (auto simp: classify_def endElement_def Let_def index_def rootElementIndex_def
          split: sum.splits if_splits)
  next
    case (Inr p2)
    from closeElement_consistent [OF _ Inr] assms
    have "parsingIndex p2 = int (length (parsingStack p2)) - 1 \<and> \<not> inElement p2 \<and>
         (parsingIndex p2 \<noteq> rootElementIndex \<longrightarrow> nextElement p2 = None)"
      by (simp add: consistent_def)
    with EndElement assms Inr show ?thesis
      by (auto simp: classify_def endElement_def Let_def consistent_def finish_def
          split: sum.splits if_splits)
  qed
next
  case (CharData s)
  with assms show ?thesis
    by (auto simp: classify_def setElementText_def index_def consistent_def
        split: sum.splits if_splits)
next
  case (Comment c)
  with assms show ?thesis by (auto simp: classify_def)
next
  case (ProcInst a b)
  with assms show ?thesis by (auto simp: classify_def)
next
  case (Directive d)
  with assms show ?thesis by (auto simp: classify_def)
qed

lemma body_consistent:
  assumes "consistent p"
  shows "(body p t = Continue p' \<longrightarrow> consistent p') \<and>
         (body p t = Done p' \<longrightarrow> consistent (snd (finish p'))) \<and>
         (body p t = Exit r p' \<longrightarrow> r \<noteq> Panic \<longrightarrow> consistent p')"
  using classify_consistent [OF assms, of t p' r] assms
  by (auto simp: body_def)

lemma consistent_dec: "consistent (p\<lparr>dec := d\<rparr>) = consistent p"
  by (simp add: consistent_def)

lemma loop_consistent:
  assumes "consistent p" and "fst (loop p t) \<noteq> Panic"
  shows "consistent (snd (loop p t))"
proof -
  define Q where "Q = (\<lambda>(p :: Parser) (res :: result \<times> Parser).
     consistent p \<longrightarrow> fst res \<noteq> Panic \<longrightarrow> consistent (snd res))"
  have "Q p (loop p t)"
  proof (induction rule: loop_rule)
    case (Exit p t r p')
    then show ?case using body_consistent [of p t p' r] by (simp add: Q_def)
  next
    case (Done p t p')
    then show ?case using body_consistent [of p t p'] by (simp add: Q_def)
  next
    case (Fail p t p')
    then show ?case using body_consistent [of p t p'] by (simp add: Q_def)
  next
    case (Next p t p' t' off rest res)
    then show ?case using body_consistent [of p t p'] by (simp add: Q_def consistent_dec)
  qed
  with assms show ?thesis by (simp add: Q_def)
qed

lemma ParseElement_consistent:
  assumes "consistent p" and "fst (ParseElement p) \<noteq> Panic"
  shows "consistent (snd (ParseElement p))"
proof (cases "pending (dec p)")
  case Nil
  with assms show ?thesis by (simp add: ParseElement_Nil)
next
  case (Cons a rest)
  obtain t off where "a = (t, off)" by (cases a)
  with Cons assms show ?thesis
    using loop_consistent [of "p\<lparr>dec := (dec p)\<lparr>pending := rest, offset := off\<rparr>\<rparr>" t]
    by (simp add: ParseElement_Cons consistent_dec)
qed

text \<open>In a consistent state only an end tag at the top level panics.\<close>

lemma classify_Panic:
  assumes "consistent p" and "classify p t = Exit Panic p'"
  shows "\<exists>n. t = EndElement n \<and> \<not> isStream n \<and> parsingStack p = []"
proof (cases t)
  case (StartElement n as)
  have "\<exists>p2. closeElement (startElement p n as) = Inr p2"
    using assms(1)
    by (intro closeElement_ok) (simp_all add: startElement_eq consistent_def)
  with StartElement assms(2) show ?thesis
    by (auto simp: classify_def Let_def split: if_splits)
next
  case (EndElement n)
  show ?thesis
  proof (cases "parsingStack p = []")
    case True
    with EndElement assms show ?thesis
      by (auto simp: classify_def split: if_splits)
  next
    case False
    with assms(1) have "\<exists>p2. closeElement p = Inr p2"
      by (intro closeElement_ok) (simp_all add: consistent_def)
    moreover from False assms(1) have "\<exists>e. index (parsingStack p) (parsingIndex p) = Inr e"
      by (auto simp: index_def consistent_def)
    ultimately show ?thesis using EndElement assms(2)
      by (auto simp: classify_def endElement_def Let_def split: if_splits)
  qed
next
  case (CharData s)
  with assms show ?thesis
    by (auto simp: classify_def setElementText_def index_def consistent_def
        split: if_splits)
qed (use assms in \<open>simp_all add: classify_def\<close>)


text \<open>The size check and the committed offset, for a whole call.\<close>

lemma consistent_root: "consistent p \<Longrightarrow> parsingIndex p = rootElementIndex \<Longrightarrow>
   parsingStack p = [] \<and> \<not> inElement p"
  by (simp add: consistent_def rootElementIndex_def)

lemma ParseElement_tooLarge_iff:
  assumes "0 < maxStanzaSize p"
  shows "(fst (ParseElement p) = Err ErrTooLargeStanza) =
         (pending (dec p) \<noteq> [] \<and>
          maxStanzaSize p < InputOffset (dec (snd (ParseElement p))) - lastOffset p)"
proof (cases "pending (dec p)")
  case Nil
  then show ?thesis by (simp add: ParseElement_Nil)
next
  case (Cons a rest)
  obtain t off where "a = (t, off)" by (cases a)
  with Cons assms show ?thesis
    using loop_tooLarge_iff [of "p\<lparr>dec := (dec p)\<lparr>pending := rest, offset := off\<rparr>\<rparr>" t]
    by (simp add: ParseElement_Cons)
qed

lemma ParseElement_never_tooLarge:
  assumes "maxStanzaSize p \<le> 0"
  shows "fst (ParseElement p) \<noteq> Err ErrTooLargeStanza"
proof (cases "pending (dec p)")
  case Nil
  then show ?thesis by (simp add: ParseElement_Nil)
next
  case (Cons a rest)
  obtain t off where "a = (t, off)" by (cases a)
  with Cons assms show ?thesis
    using loop_never_tooLarge [of "p\<lparr>dec := (dec p)\<lparr>pending := rest, offset := off\<rparr>\<rparr>" t]
    by (simp add: ParseElement_Cons)
qed

lemma ParseElement_maxStanzaSize: "maxStanzaSize (snd (ParseElement p)) = maxStanzaSize p"
proof (cases "pending (dec p)")
  case Nil
  then show ?thesis by (simp add: ParseElement_Nil)
next
  case (Cons a rest)
  obtain t off where "a = (t, off)" by (cases a)
  with Cons show ?thesis
    using loop_maxStanzaSize [of "p\<lparr>dec := (dec p)\<lparr>pending := rest, offset := off\<rparr>\<rparr>" t]
    by (simp add: ParseElement_Cons)
qed



lemma fits_unlimited: "maxStanzaSize p \<le> 0 \<Longrightarrow> fits p ts"
  by (auto simp: fits_def)

text \<open>
  A limit of zero or below changes nothing but the size check: a call that does not end
  with \<^verbatim>\<open>ErrTooLargeStanza\<close> gives the same result without the limit.
\<close>

lemma closeElement_limit:
  "closeElement (p\<lparr>maxStanzaSize := m\<rparr>) =
     (case closeElement p of Inl e \<Rightarrow> Inl e | Inr q \<Rightarrow> Inr (q\<lparr>maxStanzaSize := m\<rparr>))"
  by (simp add: closeElement_def Let_def split: sum.splits)

lemma startElement_limit:
  "startElement (p\<lparr>maxStanzaSize := m\<rparr>) n as = (startElement p n as)\<lparr>maxStanzaSize := m\<rparr>"
  by (simp add: startElement_eq)

lemma setElementText_limit:
  "setElementText (p\<lparr>maxStanzaSize := m\<rparr>) s =
     (case setElementText p s of Inl e \<Rightarrow> Inl e | Inr q \<Rightarrow> Inr (q\<lparr>maxStanzaSize := m\<rparr>))"
  by (simp add: setElementText_def split: sum.splits)

lemma endElement_limit:
  "endElement (p\<lparr>maxStanzaSize := m\<rparr>) n =
     (case endElement p n of Inl e \<Rightarrow> Inl e
      | Inr (q, err) \<Rightarrow> Inr (q\<lparr>maxStanzaSize := m\<rparr>, err))"
  by (simp add: endElement_def closeElement_limit Let_def split: sum.splits)

lemma classify_limit: "classify (p\<lparr>maxStanzaSize := m\<rparr>) t = with_limit m (classify p t)"
  by (cases t)
    (simp_all add: classify_def startElement_limit setElementText_limit endElement_limit
      closeElement_limit Let_def split: sum.splits prod.splits)

lemma finish_limit:
  "finish (p\<lparr>maxStanzaSize := m\<rparr>) = (fst (finish p), (snd (finish p))\<lparr>maxStanzaSize := m\<rparr>)"
  by (simp add: finish_def Let_def)

lemma loop_limit:
  assumes "fst (loop p t) \<noteq> Err ErrTooLargeStanza" and "m \<le> 0"
  shows "loop (p\<lparr>maxStanzaSize := m\<rparr>) t = (fst (loop p t), (snd (loop p t))\<lparr>maxStanzaSize := m\<rparr>)"
  using assms
proof (induction p t rule: loop.induct)
  case (1 p t)
  from "1.prems" have ntl: "\<not> tooLarge p"
    by (auto simp: loop_Exit body_tooLarge)
  from "1.prems"(2) have ntl': "\<not> tooLarge (p\<lparr>maxStanzaSize := m\<rparr>)"
    by (simp add: tooLarge_def)
  have b: "body (p\<lparr>maxStanzaSize := m\<rparr>) t = with_limit m (body p t)"
    using ntl ntl' by (simp add: body_def classify_limit)
  show ?case
  proof (cases "body p t")
    case (Continue q)
    show ?thesis
    proof (cases "pending (dec q)")
      case Nil
      with Continue b show ?thesis by (simp add: loop.simps RawToken_def)
    next
      case (Cons a rest)
      obtain t' off where a: "a = (t', off)" by (cases a)
      let ?q = "q\<lparr>dec := (dec q)\<lparr>pending := rest, offset := off\<rparr>\<rparr>"
      have l: "loop p t = loop ?q t'"
        using Continue Cons a by (simp add: loop.simps RawToken_def)
      have "loop (?q\<lparr>maxStanzaSize := m\<rparr>) t' =
              (fst (loop ?q t'), (snd (loop ?q t'))\<lparr>maxStanzaSize := m\<rparr>)"
        using Continue Cons a "1.prems" l
        by (intro "1.IH") (simp_all add: RawToken_def)
      moreover have "loop (p\<lparr>maxStanzaSize := m\<rparr>) t = loop (?q\<lparr>maxStanzaSize := m\<rparr>) t'"
      proof -
        have "loop (p\<lparr>maxStanzaSize := m\<rparr>) t =
                loop (q\<lparr>maxStanzaSize := m,
                        dec := (dec q)\<lparr>pending := rest, offset := off\<rparr>\<rparr>) t'"
          using Continue Cons a b by (simp add: loop.simps [of "p\<lparr>maxStanzaSize := m\<rparr>"] RawToken_def)
        also have "q\<lparr>maxStanzaSize := m, dec := (dec q)\<lparr>pending := rest, offset := off\<rparr>\<rparr> =
                ?q\<lparr>maxStanzaSize := m\<rparr>"
          by simp
        finally show ?thesis .
      qed
      ultimately show ?thesis using l by simp
    qed
  next
    case (Done q)
    with b show ?thesis by (simp add: loop.simps finish_limit)
  next
    case (Exit r q)
    with b show ?thesis by (simp add: loop.simps)
  qed
qed

lemma ParseElement_limit:
  assumes "fst (ParseElement p) \<noteq> Err ErrTooLargeStanza" and "m \<le> 0"
  shows "ParseElement (p\<lparr>maxStanzaSize := m\<rparr>) =
           (fst (ParseElement p), (snd (ParseElement p))\<lparr>maxStanzaSize := m\<rparr>)"
proof (cases "pending (dec p)")
  case Nil
  then show ?thesis by (simp add: ParseElement_Nil)
next
  case (Cons a rest)
  obtain t off where a: "a = (t, off)" by (cases a)
  let ?q = "p\<lparr>dec := (dec p)\<lparr>pending := rest, offset := off\<rparr>\<rparr>"
  have l: "ParseElement p = loop ?q t"
    using Cons a by (simp add: ParseElement_Cons)
  have "ParseElement (p\<lparr>maxStanzaSize := m\<rparr>) =
          loop (p\<lparr>maxStanzaSize := m, dec := (dec p)\<lparr>pending := rest, offset := off\<rparr>\<rparr>) t"
    using Cons a by (simp add: ParseElement_Cons)
  also have "p\<lparr>maxStanzaSize := m, dec := (dec p)\<lparr>pending := rest, offset := off\<rparr>\<rparr> =
          ?q\<lparr>maxStanzaSize := m\<rparr>"
    by simp
  also have "loop (?q\<lparr>maxStanzaSize := m\<rparr>) t =
          (fst (loop ?q t), (snd (loop ?q t))\<lparr>maxStanzaSize := m\<rparr>)"
    using assms l by (intro loop_limit) simp_all
  finally show ?thesis using l by simp
qed

text \<open>The definitions a concrete run unfolds.\<close>

lemmas run_defs =
  NewParser_def NewDecoder_def ParseElement_def RawToken_def InputOffset_def body_def
  tooLarge_def classify_def startElement_def setElementText_def endElement_def
  closeElement_def index_def xmlName_def attribute_of_def isStream_def streamName_def
  rootElementIndex_def finish_def AppendElement_def set_text_def Let_def loop.simps

section \<open>The claims\<close>

subsection \<open>The reserved stream name\<close>

text \<open>
  Claim C4, as the claim states it, on the input \<^verbatim>\<open><a></stream:stream>\<close> with a size
  limit of \<open>5\<close>: the end tag with the reserved name ends at offset \<open>19\<close>, the size check
  of lines 54 to 57 fires before the type switch sees the token, and the call fails with
  \<^verbatim>\<open>ErrTooLargeStanza\<close>, not with \<^verbatim>\<open>ErrStreamClosedByPeer\<close>.
\<close>

theorem stream_end_closes_counterexample:
  "ParseElement
     (NewParser (NewDecoder [(StartElement (Name [] ''a'') [], 3),
                             (EndElement (Name ''stream'' ''stream''), 19)] ''EOF'') 5)
   = (Err ErrTooLargeStanza,
      \<lparr>dec = \<lparr>pending = [], offset = 19, failure = ''EOF''\<rparr>, nextElement = None,
       parsingIndex = 0, parsingStack = [Element ''a'' [] [] []], inElement = True,
       lastOffset = 0, maxStanzaSize = 5\<rparr>)"
  by (simp add: run_defs)

text \<open>
  Claim C4, amended. The type switch answers an end tag with the reserved name
  \<^verbatim>\<open>stream:stream\<close> with \<^verbatim>\<open>ErrStreamClosedByPeer\<close> before it looks at the stack:
  whatever the stack, the index and the flags of the parser are, and the parser is left as
  it was. The call returns this error whenever the token reaches the switch, that is,
  whenever the size check of the same pass has not fired. \<open>loop p t\<close> is the rest of the
  call from the point where the token \<open>t\<close> has just been read in state \<open>p\<close>.
\<close>

theorem stream_end_closes:
  assumes "isStream n"
  shows "classify p (EndElement n) = Exit (Err ErrStreamClosedByPeer) p \<and>
         (\<not> tooLarge p \<longrightarrow> loop p (EndElement n) = (Err ErrStreamClosedByPeer, p))"
  using assms by (simp add: loop_Exit body_def classify_def)

theorem stream_end_closes_witness:
  "ParseElement
     (NewParser (NewDecoder [(StartElement (Name [] ''a'') [], 3),
                             (EndElement (Name ''stream'' ''stream''), 19)] ''EOF'') 100)
   = (Err ErrStreamClosedByPeer,
      \<lparr>dec = \<lparr>pending = [], offset = 19, failure = ''EOF''\<rparr>, nextElement = None,
       parsingIndex = 0, parsingStack = [Element ''a'' [] [] []], inElement = True,
       lastOffset = 0, maxStanzaSize = 100\<rparr>)"
  using stream_end_closes
    [where p = "\<lparr>dec = \<lparr>pending = [], offset = 19, failure = ''EOF''\<rparr>, nextElement = None,
          parsingIndex = 0, parsingStack = [Element ''a'' [] [] []], inElement = True,
          lastOffset = 0, maxStanzaSize = 100\<rparr>" and n = "Name ''stream'' ''stream''"]
  by (simp add: run_defs)

text \<open>
  Claim C3, as the claim states it, on a stream header of \<open>42\<close> bytes given to a new
  parser with a size limit of \<open>10\<close>: the start tag with the reserved name is read at the
  top level, the size check fires before the type switch sees the token, and the call
  fails with \<^verbatim>\<open>ErrTooLargeStanza\<close> instead of returning the element.
\<close>

theorem stream_start_completes_counterexample:
  "ParseElement
     (NewParser (NewDecoder [(StartElement (Name ''stream'' ''stream'')
                                [Attr (Name ''xmlns'' ''stream'') ''ns'',
                                 Attr (Name [] ''to'') ''x''], 42)] ''EOF'') 10)
   = (Err ErrTooLargeStanza,
      \<lparr>dec = \<lparr>pending = [], offset = 42, failure = ''EOF''\<rparr>, nextElement = None,
       parsingIndex = - 1, parsingStack = [], inElement = False,
       lastOffset = 0, maxStanzaSize = 10\<rparr>)"
  by (simp add: run_defs)

text \<open>
  Claim C3, amended. A start tag with the reserved name \<^verbatim>\<open>stream:stream\<close> read at the
  top level (index \<open>-1\<close>, empty stack) and past the size check completes the call at once:
  the result is the element of that tag, with the tag's attributes, no text and no
  children. The decoder is not touched again, so nothing after the tag is needed.
\<close>

theorem stream_start_completes:
  assumes "\<not> tooLarge p" and "isStream n"
    and "parsingIndex p = rootElementIndex" and "parsingStack p = []"
  shows "loop p (StartElement n as) =
           (Ok (Some (Element ''stream:stream'' (attributeSet (map attribute_of as)) [] [])),
            p\<lparr>parsingStack := [], parsingIndex := rootElementIndex, nextElement := None,
              inElement := False, lastOffset := InputOffset (dec p)\<rparr>)"
proof -
  have "closeElement (startElement p n as) =
          Inr ((startElement p n as)\<lparr>parsingStack := [], parsingIndex := rootElementIndex,
                 nextElement := Some (streamElement as), inElement := False\<rparr>)"
    using assms
    by (intro closeElement_root)
      (simp_all add: startElement_eq newElement_stream rootElementIndex_def)
  then have "body p (StartElement n as) =
          Done (p\<lparr>parsingStack := [], parsingIndex := rootElementIndex,
                 nextElement := Some (streamElement as), inElement := False\<rparr>)"
    using assms by (simp add: body_def classify_def Let_def startElement_eq)
  then show ?thesis
    by (simp add: loop_Done finish_def Let_def streamElement_def)
qed

theorem stream_start_completes_witness:
  "ParseElement
     (NewParser (NewDecoder [(StartElement (Name ''stream'' ''stream'')
                                [Attr (Name ''xmlns'' ''stream'') ''ns'',
                                 Attr (Name [] ''to'') ''x''], 42)] ''EOF'') 0)
   = (Ok (Some (Element ''stream:stream''
                  [Attribute ''xmlns:stream'' ''ns'', Attribute ''to'' ''x''] [] [])),
      \<lparr>dec = \<lparr>pending = [], offset = 42, failure = ''EOF''\<rparr>, nextElement = None,
       parsingIndex = - 1, parsingStack = [], inElement = False,
       lastOffset = 42, maxStanzaSize = 0\<rparr>)"
  using stream_start_completes
    [of "\<lparr>dec = \<lparr>pending = [], offset = 42, failure = ''EOF''\<rparr>, nextElement = None,
          parsingIndex = - 1, parsingStack = [], inElement = False,
          lastOffset = 0, maxStanzaSize = 0\<rparr>" "Name ''stream'' ''stream''"
        "[Attr (Name ''xmlns'' ''stream'') ''ns'', Attr (Name [] ''to'') ''x'']"]
  by (simp add: run_defs)

text \<open>
  Claim C10, as the claim states it, on the input \<^verbatim>\<open><a><stream:stream>\<close> with a size
  limit of \<open>10\<close>: the start tag with the reserved name is read inside the open element
  \<^verbatim>\<open>a\<close> (index \<open>0\<close>) and ends at offset \<open>18\<close>. The size check fires first: the call
  fails with \<^verbatim>\<open>ErrTooLargeStanza\<close>, nothing is pushed or popped, and \<^verbatim>\<open>a\<close> gets no
  child.
\<close>

theorem nested_stream_start_counterexample:
  "ParseElement
     (NewParser (NewDecoder [(StartElement (Name [] ''a'') [], 3),
                             (StartElement (Name ''stream'' ''stream'') [], 18)] ''EOF'') 10)
   = (Err ErrTooLargeStanza,
      \<lparr>dec = \<lparr>pending = [], offset = 18, failure = ''EOF''\<rparr>, nextElement = None,
       parsingIndex = 0, parsingStack = [Element ''a'' [] [] []], inElement = True,
       lastOffset = 0, maxStanzaSize = 10\<rparr>)"
  by (simp add: run_defs)

text \<open>
  Claim C10, amended. A start tag with the reserved name read inside an open element (the
  index is at least \<open>0\<close>), in a consistent state and past the size check: the new element
  is popped at once and becomes the last child of the enclosing element, the call returns
  no element and no error, and the enclosing element stays on the stack at the same index.
  The pointer the source returns here is the nil value of \<^verbatim>\<open>nextElement\<close>.
\<close>

theorem nested_stream_start:
  assumes "\<not> tooLarge p" and "isStream n"
    and "consistent p" and "0 \<le> parsingIndex p"
  shows "loop p (StartElement n as) =
           (Ok None,
            p\<lparr>parsingStack :=
                butlast (parsingStack p) @
                [AppendElement (last (parsingStack p))
                   (Element ''stream:stream'' (attributeSet (map attribute_of as)) [] [])],
              inElement := False, lastOffset := InputOffset (dec p)\<rparr>)"
proof -
  from assms(3,4) obtain stk e where stk: "parsingStack p = stk @ [e]"
    by (cases "parsingStack p" rule: rev_cases) (auto simp: consistent_def)
  with assms(3) have idx: "parsingIndex p = int (length stk)"
    by (simp add: consistent_def)
  have "closeElement (startElement p n as) =
          Inr ((startElement p n as)\<lparr>parsingStack := stk @ [AppendElement e (streamElement as)],
                 parsingIndex := int (length stk), inElement := False\<rparr>)"
    using assms(2) stk idx
    by (intro closeElement_nested) (simp_all add: startElement_eq newElement_stream)
  then have "body p (StartElement n as) =
          Done (p\<lparr>parsingStack := stk @ [AppendElement e (streamElement as)],
                 inElement := False\<rparr>)"
    using assms idx by (simp add: body_def classify_def Let_def startElement_eq)
  then show ?thesis
    using assms(3) stk by (simp add: loop_Done finish_def Let_def consistent_def streamElement_def)
qed

theorem nested_stream_start_witness:
  "ParseElement
     (NewParser (NewDecoder [(StartElement (Name [] ''a'') [], 3),
                             (StartElement (Name ''stream'' ''stream'') [], 18),
                             (EndElement (Name [] ''a''), 22)] ''EOF'') 0)
   = (Ok None,
      \<lparr>dec = \<lparr>pending = [(EndElement (Name [] ''a''), 22)], offset = 18, failure = ''EOF''\<rparr>,
       nextElement = None, parsingIndex = 0,
       parsingStack = [Element ''a'' [] [] [Element ''stream:stream'' [] [] []]],
       inElement = False, lastOffset = 18, maxStanzaSize = 0\<rparr>)"
  using nested_stream_start
    [of "\<lparr>dec = \<lparr>pending = [(EndElement (Name [] ''a''), 22)], offset = 18, failure = ''EOF''\<rparr>,
          nextElement = None, parsingIndex = 0, parsingStack = [Element ''a'' [] [] []],
          inElement = True, lastOffset = 0, maxStanzaSize = 0\<rparr>" "Name ''stream'' ''stream''" "[]"]
  by (simp add: run_defs consistent_def)

subsection \<open>End tags that do not match\<close>

text \<open>
  Claim C1, on the input \<^verbatim>\<open><a><b></a>\<close>, alone and followed by \<^verbatim>\<open></b></a>\<close>. The end
  tag \<^verbatim>\<open></a>\<close> meets \<^verbatim>\<open>b\<close> at the top of the stack; \<^verbatim>\<open>endElement\<close> returns its
  error and \<^verbatim>\<open>ParseElement\<close> drops it. On the first input the call ends with the
  decoder's end-of-input error, with both elements still open; on the second it returns
  the element \<^verbatim>\<open>a\<close> with the child \<^verbatim>\<open>b\<close> and no error at all.
\<close>

theorem mismatched_end_tag_dropped:
  "ParseElement
     (NewParser (NewDecoder [(StartElement (Name [] ''a'') [], 3),
                             (StartElement (Name [] ''b'') [], 6),
                             (EndElement (Name [] ''a''), 10)] ''EOF'') 0)
   = (Err (ErrDecoder ''EOF''),
      \<lparr>dec = \<lparr>pending = [], offset = 10, failure = ''EOF''\<rparr>, nextElement = None,
       parsingIndex = 1, parsingStack = [Element ''a'' [] [] [], Element ''b'' [] [] []],
       inElement = True, lastOffset = 0, maxStanzaSize = 0\<rparr>)
   \<and> fst (ParseElement
     (NewParser (NewDecoder [(StartElement (Name [] ''a'') [], 3),
                             (StartElement (Name [] ''b'') [], 6),
                             (EndElement (Name [] ''a''), 10),
                             (EndElement (Name [] ''b''), 14),
                             (EndElement (Name [] ''a''), 18)] ''EOF'') 0))
   = Ok (Some (Element ''a'' [] [] [Element ''b'' [] [] []]))"
  by (simp add: run_defs)

subsection \<open>Panics\<close>

text \<open>
  Claim C8, on the input \<^verbatim>\<open></a>\<close> given to a new parser. The end tag does not have
  the reserved name, the stack is empty and the index is \<open>-1\<close>: \<^verbatim>\<open>endElement\<close> reads
  \<^verbatim>\<open>p.parsingStack[p.parsingIndex]\<close> and the call panics instead of returning.
\<close>

theorem end_tag_at_top_level_panics:
  "fst (ParseElement (NewParser (NewDecoder [(EndElement (Name [] ''a''), 4)] ''EOF'') 0))
   = Panic"
  by (simp add: run_defs)

subsection \<open>The size limit\<close>

text \<open>
  Claim C2. The size check is the first thing done with every token, whatever the token
  is: a pass ends the call with \<^verbatim>\<open>ErrTooLargeStanza\<close> exactly when the limit is
  positive and the decoder's offset minus the last committed offset exceeds it, and the
  parser is left as it was. For a whole call with a positive limit: the call returns
  \<^verbatim>\<open>ErrTooLargeStanza\<close> exactly when it has read a token and, at the token where it
  ends, the decoder's offset minus the last committed offset (the one the call started
  with) exceeds the limit. With a limit of zero (or below) no call returns
  \<^verbatim>\<open>ErrTooLargeStanza\<close> and the limit stays as it is; a call that does not run into
  the limit gives the same result with the limit set to zero; and a well-formed element is
  parsed whatever the offsets of its tokens are.
\<close>

theorem size_limit:
  "((body p t = Exit (Err ErrTooLargeStanza) p') =
      (0 < maxStanzaSize p \<and> maxStanzaSize p < InputOffset (dec p) - lastOffset p \<and> p' = p)) \<and>
   (0 < maxStanzaSize p \<and> maxStanzaSize p < InputOffset (dec p) - lastOffset p \<longrightarrow>
      loop p t = (Err ErrTooLargeStanza, p)) \<and>
   (0 < maxStanzaSize p \<longrightarrow>
      (fst (ParseElement p) = Err ErrTooLargeStanza) =
      (pending (dec p) \<noteq> [] \<and>
       maxStanzaSize p < InputOffset (dec (snd (ParseElement p))) - lastOffset p)) \<and>
   (maxStanzaSize p \<le> 0 \<longrightarrow>
      fst (ParseElement p) \<noteq> Err ErrTooLargeStanza \<and>
      maxStanzaSize (snd (ParseElement p)) = maxStanzaSize p) \<and>
   (fst (ParseElement p) \<noteq> Err ErrTooLargeStanza \<and> m \<le> 0 \<longrightarrow>
      ParseElement (p\<lparr>maxStanzaSize := m\<rparr>) =
        (fst (ParseElement p), (snd (ParseElement p))\<lparr>maxStanzaSize := m\<rparr>)) \<and>
   (maxStanzaSize p \<le> 0 \<and> wellFormed x \<and> parsingStack p = [] \<and>
    parsingIndex p = rootElementIndex \<and> pending (dec p) = tokens x @ rest \<longrightarrow>
      fst (ParseElement p) = Ok (Some (element_of x)))"
proof (intro conjI impI)
  show "(body p t = Exit (Err ErrTooLargeStanza) p') =
      (0 < maxStanzaSize p \<and> maxStanzaSize p < InputOffset (dec p) - lastOffset p \<and> p' = p)"
  proof
    assume b: "body p t = Exit (Err ErrTooLargeStanza) p'"
    then have tl: "tooLarge p" by (rule body_Exit_tooLarge)
    with b have "p' = p" by (simp add: body_def)
    with tl show "0 < maxStanzaSize p \<and> maxStanzaSize p < InputOffset (dec p) - lastOffset p \<and>
        p' = p"
      by (simp add: tooLarge_def Let_def)
  next
    assume "0 < maxStanzaSize p \<and> maxStanzaSize p < InputOffset (dec p) - lastOffset p \<and> p' = p"
    then have "tooLarge p" and "p' = p" by (simp_all add: tooLarge_def Let_def)
    then show "body p t = Exit (Err ErrTooLargeStanza) p'"
      by (simp add: body_tooLarge)
  qed
next
  assume "0 < maxStanzaSize p \<and> maxStanzaSize p < InputOffset (dec p) - lastOffset p"
  then have "tooLarge p" by (simp add: tooLarge_def Let_def)
  then show "loop p t = (Err ErrTooLargeStanza, p)"
    by (simp add: loop_Exit body_tooLarge)
next
  assume "0 < maxStanzaSize p"
  then show "(fst (ParseElement p) = Err ErrTooLargeStanza) =
      (pending (dec p) \<noteq> [] \<and>
       maxStanzaSize p < InputOffset (dec (snd (ParseElement p))) - lastOffset p)"
    by (rule ParseElement_tooLarge_iff)
next
  assume "maxStanzaSize p \<le> 0"
  then show "fst (ParseElement p) \<noteq> Err ErrTooLargeStanza"
    by (rule ParseElement_never_tooLarge)
next
  show "maxStanzaSize (snd (ParseElement p)) = maxStanzaSize p"
    by (rule ParseElement_maxStanzaSize)
next
  assume "fst (ParseElement p) \<noteq> Err ErrTooLargeStanza \<and> m \<le> 0"
  then show "ParseElement (p\<lparr>maxStanzaSize := m\<rparr>) =
        (fst (ParseElement p), (snd (ParseElement p))\<lparr>maxStanzaSize := m\<rparr>)"
    by (simp add: ParseElement_limit)
next
  assume a: "maxStanzaSize p \<le> 0 \<and> wellFormed x \<and> parsingStack p = [] \<and>
    parsingIndex p = rootElementIndex \<and> pending (dec p) = tokens x @ rest"
  then have "fits p (tokens x)" by (simp add: fits_unlimited)
  with a show "fst (ParseElement p) = Ok (Some (element_of x))"
    using parse_root [of x p rest] by simp
qed

theorem size_limit_witness:
  "fst (ParseElement
     (NewParser (NewDecoder [(StartElement (Name [] ''message'') [], 9),
                             (CharData ''hello'', 14),
                             (EndElement (Name [] ''message''), 24)] ''EOF'') 10))
   = Err ErrTooLargeStanza
   \<and> fst (ParseElement
     (NewParser (NewDecoder [(StartElement (Name [] ''message'') [], 9),
                             (CharData ''hello'', 14),
                             (EndElement (Name [] ''message''), 24)] ''EOF'') 0))
   = Ok (Some (Element ''message'' [] ''hello'' []))"
  using size_limit
    [where p = "NewParser (NewDecoder [(StartElement (Name [] ''message'') [], 9),
                             (CharData ''hello'', 14),
                             (EndElement (Name [] ''message''), 24)] ''EOF'') 10"]
    size_limit
    [where p = "NewParser (NewDecoder [(StartElement (Name [] ''message'') [], 9),
                             (CharData ''hello'', 14),
                             (EndElement (Name [] ''message''), 24)] ''EOF'') 0"
       and x = "XNode (Name [] ''message'') [] 9 (Some (''hello'', 14)) [] 24" and rest = "[]"]
  by (simp add: run_defs)

subsection \<open>Character data\<close>

text \<open>
  Claim C5, as the claim states it, on the input \<^verbatim>\<open><a><b/>x</a>\<close>: the character data
  \<^verbatim>\<open>x\<close> is read inside the open element \<^verbatim>\<open>a\<close> (index \<open>0\<close>), after the child
  \<^verbatim>\<open>b\<close> has been closed. \<^verbatim>\<open>closeElement\<close> has switched \<^verbatim>\<open>inElement\<close> off, so
  the call returns no element and no error at once, with \<^verbatim>\<open>a\<close> still on the stack.
\<close>

theorem character_data_counterexample:
  "ParseElement
     (NewParser (NewDecoder [(StartElement (Name [] ''a'') [], 3),
                             (StartElement (Name [] ''b'') [], 7),
                             (EndElement (Name [] ''b''), 7),
                             (CharData ''x'', 8),
                             (EndElement (Name [] ''a''), 12)] ''EOF'') 0)
   = (Ok None,
      \<lparr>dec = \<lparr>pending = [(EndElement (Name [] ''a''), 12)], offset = 8, failure = ''EOF''\<rparr>,
       nextElement = None, parsingIndex = 0,
       parsingStack = [Element ''a'' [] [] [Element ''b'' [] [] []]],
       inElement = False, lastOffset = 0, maxStanzaSize = 0\<rparr>)"
  by (simp add: run_defs)

text \<open>
  Claim C5, amended. Past the size check, a pass over character data returns no element
  and no error at once exactly when the flag \<^verbatim>\<open>inElement\<close> is off; the parser is left
  as it was. The flag is off at the top level (index \<open>-1\<close>), and also after a child has
  been closed inside an open parent. When the flag is on, the text of the element at the
  top of the stack is replaced by the character data and the call goes on with the next
  token. Character data between two complete top-level elements gives three calls: the
  first element, then no element and no error, then the second element.
\<close>

theorem character_data:
  "(\<not> tooLarge p \<longrightarrow> (\<exists>p'. body p (CharData s) = Exit (Ok None) p') = (\<not> inElement p)) \<and>
   (\<not> tooLarge p \<and> \<not> inElement p \<longrightarrow> loop p (CharData s) = (Ok None, p)) \<and>
   (consistent p \<and> parsingIndex p = rootElementIndex \<longrightarrow> \<not> inElement p) \<and>
   (\<not> tooLarge p \<and> inElement p \<and> consistent p \<longrightarrow>
      loop p (CharData s) =
        ParseElement (p\<lparr>parsingStack :=
                          butlast (parsingStack p) @ [set_text (last (parsingStack p)) s]\<rparr>) \<and>
      text' (set_text (last (parsingStack p)) s) = s) \<and>
   (wellFormed x \<and> wellFormed y \<and> consistent p \<and> parsingIndex p = rootElementIndex \<and>
    pending (dec p) = tokens x @ (CharData s, off) # tokens y @ rest \<and>
    fits p (tokens x) \<and> fits (p\<lparr>lastOffset := endOffset x\<rparr>) ((CharData s, off) # tokens y) \<longrightarrow>
      fst (ParseElement p) = Ok (Some (element_of x)) \<and>
      fst (ParseElement (snd (ParseElement p))) = Ok None \<and>
      fst (ParseElement (snd (ParseElement (snd (ParseElement p))))) = Ok (Some (element_of y)))"
proof (intro conjI impI)
  assume "\<not> tooLarge p"
  then show "(\<exists>p'. body p (CharData s) = Exit (Ok None) p') = (\<not> inElement p)"
    by (auto simp: body_def classify_def split: sum.splits)
next
  assume "\<not> tooLarge p \<and> \<not> inElement p"
  then show "loop p (CharData s) = (Ok None, p)"
    by (simp add: loop_Exit body_def classify_def)
next
  assume "consistent p \<and> parsingIndex p = rootElementIndex"
  then show "\<not> inElement p" by (simp add: consistent_root)
next
  assume a: "\<not> tooLarge p \<and> inElement p \<and> consistent p"
  then obtain stk e where stk: "parsingStack p = stk @ [e]"
    by (cases "parsingStack p" rule: rev_cases) (auto simp: consistent_def)
  with a have "parsingIndex p = int (length stk)" by (simp add: consistent_def)
  with a stk show "loop p (CharData s) =
        ParseElement (p\<lparr>parsingStack :=
                          butlast (parsingStack p) @ [set_text (last (parsingStack p)) s]\<rparr>)"
    by (simp add: step_text)
next
  show "text' (set_text (last (parsingStack p)) s) = s"
    by (simp add: set_text_def)
next
  assume a: "wellFormed x \<and> wellFormed y \<and> consistent p \<and> parsingIndex p = rootElementIndex \<and>
    pending (dec p) = tokens x @ (CharData s, off) # tokens y @ rest \<and>
    fits p (tokens x) \<and> fits (p\<lparr>lastOffset := endOffset x\<rparr>) ((CharData s, off) # tokens y)"
  let ?p1 = "p\<lparr>dec := (dec p)\<lparr>pending := (CharData s, off) # tokens y @ rest,
                                 offset := endOffset x\<rparr>,
               parsingStack := [], parsingIndex := rootElementIndex, nextElement := None,
               inElement := False, lastOffset := endOffset x\<rparr>"
  let ?p2 = "?p1\<lparr>dec := (dec ?p1)\<lparr>pending := tokens y @ rest, offset := off\<rparr>\<rparr>"
  have c1: "ParseElement p = (Ok (Some (element_of x)), ?p1)"
    using a by (intro parse_root) (simp_all add: consistent_root)
  have "ParseElement ?p1 = loop ?p2 (CharData s)"
    by (intro ParseElement_Cons) simp
  also have "\<dots> = (Ok None, ?p2)"
    using a by (intro loop_Exit) (simp add: body_def classify_def tooLarge_def InputOffset_def fits_Cons)
  finally have c2: "ParseElement ?p1 = (Ok None, ?p2)" .
  have c3: "fst (ParseElement ?p2) = Ok (Some (element_of y))"
  proof -
    have "fits ?p2 (tokens y)"
      using a by (simp add: fits_Cons fits_def)
    then show ?thesis
      using a by (subst parse_root [where x = y and rest = rest]) simp_all
  qed
  have s1: "snd (ParseElement p) = ?p1" by (simp only: c1 snd_conv)
  have s2: "snd (ParseElement ?p1) = ?p2" by (simp only: c2 snd_conv)
  show "fst (ParseElement p) = Ok (Some (element_of x))"
    by (simp only: c1 fst_conv)
  show "fst (ParseElement (snd (ParseElement p))) = Ok None"
    by (simp only: s1 c2 fst_conv)
  show "fst (ParseElement (snd (ParseElement (snd (ParseElement p))))) = Ok (Some (element_of y))"
    by (simp only: s1 s2 c3)
qed

theorem character_data_witness:
  "fst (ParseElement
     (NewParser (NewDecoder [(StartElement (Name [] ''a'') [], 4),
                             (EndElement (Name [] ''a''), 4),
                             (CharData ''   '', 7),
                             (StartElement (Name [] ''b'') [], 11),
                             (EndElement (Name [] ''b''), 11)] ''EOF'') 10))
   = Ok (Some (Element ''a'' [] [] []))
   \<and> fst (ParseElement (snd (ParseElement
     (NewParser (NewDecoder [(StartElement (Name [] ''a'') [], 4),
                             (EndElement (Name [] ''a''), 4),
                             (CharData ''   '', 7),
                             (StartElement (Name [] ''b'') [], 11),
                             (EndElement (Name [] ''b''), 11)] ''EOF'') 10))))
   = Ok None
   \<and> fst (ParseElement (snd (ParseElement (snd (ParseElement
     (NewParser (NewDecoder [(StartElement (Name [] ''a'') [], 4),
                             (EndElement (Name [] ''a''), 4),
                             (CharData ''   '', 7),
                             (StartElement (Name [] ''b'') [], 11),
                             (EndElement (Name [] ''b''), 11)] ''EOF'') 10))))))
   = Ok (Some (Element ''b'' [] [] []))"
  using character_data
    [where p = "NewParser (NewDecoder [(StartElement (Name [] ''a'') [], 4),
                             (EndElement (Name [] ''a''), 4),
                             (CharData ''   '', 7),
                             (StartElement (Name [] ''b'') [], 11),
                             (EndElement (Name [] ''b''), 11)] ''EOF'') 10"
       and x = "XNode (Name [] ''a'') [] 4 None [] 4" and s = "''   ''" and off = 7
       and y = "XNode (Name [] ''b'') [] 11 None [] 11" and rest = "[]"]
  by (simp add: NewParser_def NewDecoder_def fits_def xmlName_def consistent_def
      isStream_def streamName_def rootElementIndex_def tooLarge_def InputOffset_def)

subsection \<open>Document order\<close>

text \<open>
  Claim C6, as the claim states it, on two well-formed inputs. On \<^verbatim>\<open><a>x<b/>y</a>\<close> the
  call returns no element when it reads \<^verbatim>\<open>y\<close>, and the element the next call returns
  has lost that text. On \<^verbatim>\<open><a><stream:stream/></a>\<close> the call returns no element at
  the inner start tag, and the next call fails with \<^verbatim>\<open>ErrStreamClosedByPeer\<close>:
  the element \<^verbatim>\<open>a\<close> is never returned.
\<close>

theorem element_roundtrip_counterexample:
  "fst (ParseElement
     (NewParser (NewDecoder [(StartElement (Name [] ''a'') [], 3),
                             (CharData ''x'', 4),
                             (StartElement (Name [] ''b'') [], 8),
                             (EndElement (Name [] ''b''), 8),
                             (CharData ''y'', 9),
                             (EndElement (Name [] ''a''), 13)] ''EOF'') 0))
   = Ok None
   \<and> fst (ParseElement (snd (ParseElement
     (NewParser (NewDecoder [(StartElement (Name [] ''a'') [], 3),
                             (CharData ''x'', 4),
                             (StartElement (Name [] ''b'') [], 8),
                             (EndElement (Name [] ''b''), 8),
                             (CharData ''y'', 9),
                             (EndElement (Name [] ''a''), 13)] ''EOF'') 0))))
   = Ok (Some (Element ''a'' [] ''x'' [Element ''b'' [] [] []]))
   \<and> fst (ParseElement
     (NewParser (NewDecoder [(StartElement (Name [] ''a'') [], 3),
                             (StartElement (Name ''stream'' ''stream'') [], 18),
                             (EndElement (Name ''stream'' ''stream''), 18),
                             (EndElement (Name [] ''a''), 22)] ''EOF'') 0))
   = Ok None
   \<and> fst (ParseElement (snd (ParseElement
     (NewParser (NewDecoder [(StartElement (Name [] ''a'') [], 3),
                             (StartElement (Name ''stream'' ''stream'') [], 18),
                             (EndElement (Name ''stream'' ''stream''), 18),
                             (EndElement (Name [] ''a''), 22)] ''EOF'') 0))))
   = Err ErrStreamClosedByPeer"
  by (simp add: run_defs)

text \<open>
  Claim C6, amended. For a well-formed element whose character data directly follows its
  start tag, in which no tag has the reserved name and the attribute names of a tag are
  distinct: one call at the top level, with every token past the size check, returns the
  element with its qualified name, its attributes in source order with their values, its
  text, and its children in document order. The call consumes exactly the tokens of the
  element and commits the offset of its end tag.
\<close>

theorem element_roundtrip:
  assumes "wellFormed x"
    and "parsingStack p = []" and "parsingIndex p = rootElementIndex"
    and "pending (dec p) = tokens x @ rest" and "fits p (tokens x)"
  shows "ParseElement p =
           (Ok (Some (element_of x)),
            p\<lparr>dec := (dec p)\<lparr>pending := rest, offset := endOffset x\<rparr>,
              parsingStack := [], parsingIndex := rootElementIndex, nextElement := None,
              inElement := False, lastOffset := endOffset x\<rparr>)"
  by (rule parse_root [OF assms(1,4,5,2,3)])

theorem element_roundtrip_witness:
  "ParseElement
     (NewParser (NewDecoder
        [(StartElement (Name [] ''a'')
            [Attr (Name [] ''id'') ''1'', Attr (Name ''xml'' ''lang'') ''en''], 24),
         (CharData ''hi'', 26),
         (StartElement (Name [] ''b'') [], 30), (EndElement (Name [] ''b''), 30),
         (StartElement (Name [] ''c'') [], 33), (CharData ''yo'', 35),
         (EndElement (Name [] ''c''), 39),
         (EndElement (Name [] ''a''), 43)] ''EOF'') 100)
   = (Ok (Some (Element ''a'' [Attribute ''id'' ''1'', Attribute ''xml:lang'' ''en''] ''hi''
                  [Element ''b'' [] [] [], Element ''c'' [] ''yo'' []])),
      \<lparr>dec = \<lparr>pending = [], offset = 43, failure = ''EOF''\<rparr>, nextElement = None,
       parsingIndex = - 1, parsingStack = [], inElement = False,
       lastOffset = 43, maxStanzaSize = 100\<rparr>)"
  using element_roundtrip
    [of "XNode (Name [] ''a'') [Attr (Name [] ''id'') ''1'', Attr (Name ''xml'' ''lang'') ''en'']
           24 (Some (''hi'', 26))
           [XNode (Name [] ''b'') [] 30 None [] 30,
            XNode (Name [] ''c'') [] 33 (Some (''yo'', 35)) [] 39] 43"
        "NewParser (NewDecoder
        [(StartElement (Name [] ''a'')
            [Attr (Name [] ''id'') ''1'', Attr (Name ''xml'' ''lang'') ''en''], 24),
         (CharData ''hi'', 26),
         (StartElement (Name [] ''b'') [], 30), (EndElement (Name [] ''b''), 30),
         (StartElement (Name [] ''c'') [], 33), (CharData ''yo'', 35),
         (EndElement (Name [] ''c''), 39),
         (EndElement (Name [] ''a''), 43)] ''EOF'') 100" "[]"]
  by (simp add: NewParser_def NewDecoder_def fits_def xmlName_def attribute_of_def
      isStream_def streamName_def rootElementIndex_def)

subsection \<open>The last committed offset\<close>




end
